theory Spec2Isabelle
  imports Complex_Main
begin

section \<open>The HRF synthesizer and the convolution of brainiak\_utils.py\<close>

text \<open>
  The module has two functions: \<open>_double_gamma_hrf\<close> builds the sampled double-gamma
  curve, \<open>convolve_hrf\<close> convolves every column of a stimulus matrix with it and keeps
  one sample per TR.

  Numbers. Python floats and NumPy float64 cells are idealised as \<open>real\<close>: rounding
  and the sign of zero are not modelled, and an arithmetic operator never overflows to an
  infinity. Where the \<open>math\<close> library raises \<open>OverflowError\<close> instead, the model raises
  too: when the exact result is larger than the largest double. What NumPy's division adds
  to the finite numbers (not-a-number, infinity) is the type \<open>npfloat\<close>; the inputs
  (stimulus cells, HRF samples, parameters) are finite numbers. Python integers are
  \<open>int\<close>.

  Exceptions are values of the type \<open>error\<close>; a function that can raise returns
  \<open>error + 'a\<close>.
\<close>

subsection \<open>Python and NumPy primitives\<close>

datatype error =
    NameError string
  | UnboundLocalError string
  | ZeroDivisionError
  | ValueError string
  | OverflowError string

text \<open>\<open>int(x)\<close> on a float truncates towards zero.\<close>

definition py_int :: "real \<Rightarrow> int" where
  "py_int x = (if 0 \<le> x then \<lfloor>x\<rfloor> else \<lceil>x\<rceil>)"

text \<open>Python's \<open>/\<close> on numbers raises on a zero divisor.\<close>

definition py_truediv :: "real \<Rightarrow> real \<Rightarrow> error + real" where
  "py_truediv x y = (if y = 0 then Inl ZeroDivisionError else Inr (x / y))"

text \<open>The largest double, \<open>(2 - 2^-52) * 2^1023\<close>.\<close>

definition float_max :: real where
  "float_max = 2 ^ 1024 - 2 ^ 971"

text \<open>
  \<open>math.pow(x, y)\<close>: a negative base with a non-integral exponent and a zero base with
  a negative exponent are domain errors, a result beyond the largest double is a range
  error; \<open>pow(x, 0)\<close> is 1. \<open>pow_value\<close> is the number returned when there is no error.
\<close>

definition is_integral :: "real \<Rightarrow> bool" where
  "is_integral y = (y = of_int \<lfloor>y\<rfloor>)"

definition pow_value :: "real \<Rightarrow> real \<Rightarrow> real" where
  "pow_value x y =
     (if y = 0 then 1
      else if x = 0 then 0
      else if x < 0 then power_int x \<lfloor>y\<rfloor>
      else x powr y)"

definition math_pow :: "real \<Rightarrow> real \<Rightarrow> error + real" where
  "math_pow x y =
     (if x < 0 \<and> \<not> is_integral y then Inl (ValueError ''math domain error'')
      else if x = 0 \<and> y < 0 then Inl (ValueError ''math domain error'')
      else if float_max < \<bar>pow_value x y\<bar> then Inl (OverflowError ''math range error'')
      else Inr (pow_value x y))"

text \<open>\<open>math.exp(x)\<close> raises when the result is beyond the largest double.\<close>

definition math_exp :: "real \<Rightarrow> error + real" where
  "math_exp x =
     (if float_max < exp x then Inl (OverflowError ''math range error'') else Inr (exp x))"

text \<open>Cells of a float64 array after a NumPy division: a number, an infinity, or not-a-number.\<close>

datatype npfloat = Finite real | Infinite | NaN

text \<open>NumPy's \<open>/\<close> does not raise: \<open>0/0\<close> is not-a-number, \<open>x/0\<close> is an infinity.\<close>

definition np_divide :: "real \<Rightarrow> real \<Rightarrow> npfloat" where
  "np_divide x y = (if y \<noteq> 0 then Finite (x / y) else if x = 0 then NaN else Infinite)"

text \<open>\<open>np.max\<close> raises on a zero-size array.\<close>

definition np_max :: "real list \<Rightarrow> error + real" where
  "np_max xs =
     (case xs of
        [] \<Rightarrow> Inl (ValueError ''zero-size array to reduction operation maximum'')
      | x # ys \<Rightarrow> Inr (fold max ys x))"

text \<open>
  \<open>np.convolve(a, v)\<close> in its default mode \<open>full\<close>: the discrete linear convolution,
  \<open>(a * v)[n] = \<Sum>m. a[m] * v[n - m]\<close> over the indices where both exist, of length
  \<open>len(a) + len(v) - 1\<close>. It swaps its operands when \<open>v\<close> is the longer one and then
  raises if the first is empty, then if the second is.
\<close>

definition convolve_at :: "real list \<Rightarrow> real list \<Rightarrow> nat \<Rightarrow> real" where
  "convolve_at a v n =
     (\<Sum>m\<leftarrow>[0..<length a]. if m \<le> n \<and> n - m < length v then a ! m * v ! (n - m) else 0)"

definition np_convolve :: "real list \<Rightarrow> real list \<Rightarrow> error + real list" where
  "np_convolve a v =
     (if a = [] \<and> v = [] then Inl (ValueError ''a cannot be empty'')
      else if a = [] \<or> v = [] then Inl (ValueError ''v cannot be empty'')
      else Inr (map (convolve_at a v) [0..<length a + length v - 1]))"

text \<open>The slice \<open>a[:stop]\<close>; a negative \<open>stop\<close> counts from the end.\<close>

definition slice_stop :: "'a list \<Rightarrow> int \<Rightarrow> 'a list" where
  "slice_stop a stop =
     (if 0 \<le> stop then take (nat stop) a else take (nat (int (length a) + stop)) a)"

text \<open>
  The slice \<open>a[start::step]\<close> for a non-zero \<open>step\<close> reads the indices that
  \<open>slice(start, None, step).indices(len(a))\<close> describes: a negative \<open>start\<close> counts
  from the end and is then clipped; a positive \<open>step\<close> walks up to the end, a negative
  one walks down to index 0. A zero \<open>step\<close> raises.
\<close>

definition slice_indices :: "nat \<Rightarrow> int \<Rightarrow> int \<Rightarrow> nat list" where
  "slice_indices len start step =
     (let n = int len in
      if 0 < step then
        (let lo = (if start < 0 then max 0 (start + n) else min start n);
             cnt = nat ((n - lo + step - 1) div step)
         in map (\<lambda>k. nat (lo + int k * step)) [0..<cnt])
      else
        (let hi = (if start < 0 then max (- 1) (start + n) else min start (n - 1));
             cnt = nat ((hi - step) div (- step))
         in map (\<lambda>k. nat (hi + int k * step)) [0..<cnt]))"

definition slice_start_step :: "'a list \<Rightarrow> int \<Rightarrow> int \<Rightarrow> error + 'a list" where
  "slice_start_step a start step =
     (if step = 0 then Inl (ValueError ''slice step cannot be zero'')
      else Inr (map (\<lambda>i. a ! i) (slice_indices (length a) start step)))"

text \<open>
  A two-dimensional array: its shape and its rows. \<open>wf_ndarray\<close> says that the rows fit
  the shape, which every NumPy array does.
\<close>

record 'a ndarray =
  shape0 :: nat
  shape1 :: nat
  cells :: "'a list list"

definition wf_ndarray :: "'a ndarray \<Rightarrow> bool" where
  "wf_ndarray m = (length (cells m) = shape0 m \<and> list_all (\<lambda>r. length r = shape1 m) (cells m))"

text \<open>\<open>m[:, c]\<close>\<close>

definition column :: "'a ndarray \<Rightarrow> nat \<Rightarrow> 'a list" where
  "column m c = map (\<lambda>r. r ! c) (cells m)"

text \<open>\<open>np.zeros((n, k))\<close>\<close>

definition np_zeros :: "nat \<Rightarrow> nat \<Rightarrow> npfloat ndarray" where
  "np_zeros n k = \<lparr>shape0 = n, shape1 = k, cells = replicate n (replicate k (Finite 0))\<rparr>"

text \<open>
  \<open>m[:, c] = v\<close>: \<open>v\<close> has one value per row, or a single value that is broadcast;
  any other length raises.
\<close>

definition set_column :: "'a ndarray \<Rightarrow> nat \<Rightarrow> 'a list \<Rightarrow> error + 'a ndarray" where
  "set_column m c v =
     (if length v = shape0 m then Inr (m\<lparr>cells := map2 (\<lambda>r x. r[c := x]) (cells m) v\<rparr>)
      else if length v = 1 then Inr (m\<lparr>cells := map (\<lambda>r. r[c := hd v]) (cells m)\<rparr>)
      else Inl (ValueError ''could not broadcast input array''))"

subsection \<open>The HRF synthesizer\<close>

record hrf_params =
  response_delay :: real
  undershoot_delay :: real
  response_dispersion :: real
  undershoot_dispersion :: real
  response_scale :: real
  undershoot_scale :: real
  temporal_resolution :: real

definition default_params :: "real \<Rightarrow> hrf_params" where
  "default_params tres =
     \<lparr>response_delay = 6, undershoot_delay = 12,
      response_dispersion = 9 / 10, undershoot_dispersion = 9 / 10,
      response_scale = 1, undershoot_scale = 35 / 1000,
      temporal_resolution = tres\<rparr>"

text \<open>The body of the loop: the value stored at index \<open>hrf_counter\<close>, or the exception.\<close>

definition hrf_value :: "hrf_params \<Rightarrow> real \<Rightarrow> real \<Rightarrow> nat \<Rightarrow> error + real" where
  "hrf_value p response_peak undershoot_peak hrf_counter =
     (case py_truediv (real hrf_counter) (temporal_resolution p) of Inl e \<Rightarrow> Inl e | Inr t \<Rightarrow>
     (case py_truediv t response_peak of Inl e \<Rightarrow> Inl e | Inr rb \<Rightarrow>
     (case math_pow rb (response_delay p) of Inl e \<Rightarrow> Inl e | Inr resp_pow \<Rightarrow>
     (case py_truediv (- (t - response_peak)) (response_dispersion p) of Inl e \<Rightarrow> Inl e | Inr ra \<Rightarrow>
     (case math_exp ra of Inl e \<Rightarrow> Inl e | Inr resp_exp \<Rightarrow>
     (let response_model = response_scale p * resp_pow * resp_exp in
     (case py_truediv t undershoot_peak of Inl e \<Rightarrow> Inl e | Inr ub \<Rightarrow>
     (case math_pow ub (undershoot_delay p) of Inl e \<Rightarrow> Inl e | Inr undershoot_pow \<Rightarrow>
     (case py_truediv undershoot_peak (undershoot_dispersion p) of Inl e \<Rightarrow> Inl e | Inr uq \<Rightarrow>
     (case math_exp (- (t - uq)) of Inl e \<Rightarrow> Inl e | Inr undershoot_exp \<Rightarrow>
     (let undershoot_model = undershoot_scale p * undershoot_pow * undershoot_exp in
      Inr (response_model - undershoot_model))))))))))))"

text \<open>The loop over \<open>range(len(hrf) - 1)\<close>, writing into \<open>hrf\<close>; an exception ends it.\<close>

fun hrf_loop :: "hrf_params \<Rightarrow> real \<Rightarrow> real \<Rightarrow> nat list \<Rightarrow> real list \<Rightarrow> error + real list" where
  "hrf_loop p response_peak undershoot_peak [] hrf = Inr hrf"
| "hrf_loop p response_peak undershoot_peak (hrf_counter # rest) hrf =
     (case hrf_value p response_peak undershoot_peak hrf_counter of
        Inl e \<Rightarrow> Inl e
      | Inr x \<Rightarrow> hrf_loop p response_peak undershoot_peak rest (hrf[hrf_counter := x]))"

definition double_gamma_hrf :: "hrf_params \<Rightarrow> error + real list" where
  "double_gamma_hrf p =
     (let hrf_length = 30;
          hrf = replicate (nat (py_int (hrf_length * temporal_resolution p))) 0;
          response_peak = response_delay p * response_dispersion p;
          undershoot_peak = undershoot_delay p * undershoot_dispersion p
      in hrf_loop p response_peak undershoot_peak [0..<length hrf - 1] hrf)"

subsection \<open>The convolution and downsampling\<close>

text \<open>
  \<open>hrf_type\<close> is a string, a list of samples, a one-dimensional NumPy array of numbers,
  or any other Python value whose \<open>==\<close> with a string is plainly false (\<open>None\<close>, a
  number, a tuple).
\<close>

datatype hrf_type = HrfStr string | HrfList "real list" | HrfArray "real list" | HrfOther

text \<open>
  The test \<open>hrf_type == 'double_gamma'\<close> as the \<open>if\<close> reads it. NumPy (2.2 and later)
  compares an array of numbers with a string element by element, to an array of \<open>False\<close>,
  and the truth value of an array that does not have exactly one element raises.
\<close>

fun eq_double_gamma :: "hrf_type \<Rightarrow> error + bool" where
  "eq_double_gamma (HrfStr s) = Inr (s = ''double_gamma'')"
| "eq_double_gamma (HrfList l) = Inr False"
| "eq_double_gamma (HrfArray a) =
     (if length a = 1 then Inr False
      else if a = [] then Inl (ValueError ''The truth value of an empty array is ambiguous'')
      else Inl (ValueError
                  ''The truth value of an array with more than one element is ambiguous''))"
| "eq_double_gamma HrfOther = Inr False"

text \<open>
  The \<open>if\<close>/\<open>elif\<close> that binds \<open>hrf\<close>; there is no \<open>else\<close>, so \<open>hrf\<close> may stay
  unbound (\<open>None\<close>).
\<close>

definition select_hrf :: "hrf_type \<Rightarrow> real \<Rightarrow> error + real list option" where
  "select_hrf ht tres =
     (case eq_double_gamma ht of
        Inl e \<Rightarrow> Inl e
      | Inr is_double_gamma \<Rightarrow>
          if is_double_gamma
          then (case double_gamma_hrf (default_params tres) of
                  Inl e \<Rightarrow> Inl e | Inr h \<Rightarrow> Inr (Some h))
          else (case ht of HrfList l \<Rightarrow> Inr (Some l) | _ \<Rightarrow> Inr None))"

text \<open>
  The body of the column loop has three parts. First the convolution of the column and the
  downsampling to one value per TR:
\<close>

definition downsample ::
  "real ndarray \<Rightarrow> real list option \<Rightarrow> int \<Rightarrow> int \<Rightarrow> nat \<Rightarrow> error + real list" where
  "downsample stimfunction hrf stride duration list_counter =
     (case hrf of None \<Rightarrow> Inl (UnboundLocalError ''hrf'') | Some h \<Rightarrow>
     (case np_convolve (column stimfunction list_counter) h of Inl e \<Rightarrow> Inl e | Inr conv \<Rightarrow>
     (let signal_temp = slice_stop conv (duration * stride) in
      slice_start_step signal_temp (py_int (real_of_int stride / 2)) stride)))"

text \<open>then the optional division by the maximum:\<close>

definition scale_signal :: "bool \<Rightarrow> real list \<Rightarrow> error + npfloat list" where
  "scale_signal scale_function signal_vox =
     (if scale_function
      then (case np_max signal_vox of
              Inl e \<Rightarrow> Inl e
            | Inr mx \<Rightarrow> Inr (map (\<lambda>x. np_divide x mx) signal_vox))
      else Inr (map Finite signal_vox))"

definition signal_column ::
  "real ndarray \<Rightarrow> real list option \<Rightarrow> int \<Rightarrow> int \<Rightarrow> bool \<Rightarrow> nat \<Rightarrow> error + npfloat list" where
  "signal_column stimfunction hrf stride duration scale_function list_counter =
     (case downsample stimfunction hrf stride duration list_counter of
        Inl e \<Rightarrow> Inl e
      | Inr signal_vox \<Rightarrow> scale_signal scale_function signal_vox)"

text \<open>and last the write into the output, which is part of the loop below.\<close>

text \<open>
  The loop over \<open>range(list_num)\<close>. \<open>signal_function\<close> is bound in the iteration with
  \<open>list_counter == 0\<close>; it is \<open>None\<close> before.
\<close>

fun column_loop ::
  "(nat \<Rightarrow> error + npfloat list) \<Rightarrow> nat \<Rightarrow> nat list \<Rightarrow> npfloat ndarray option
     \<Rightarrow> error + npfloat ndarray option" where
  "column_loop body list_num [] signal_function = Inr signal_function"
| "column_loop body list_num (list_counter # rest) signal_function =
     (case body list_counter of
        Inl e \<Rightarrow> Inl e
      | Inr signal_vox \<Rightarrow>
          (case (if list_counter = 0 then Some (np_zeros (length signal_vox) list_num)
                 else signal_function) of
             None \<Rightarrow> Inl (UnboundLocalError ''signal_function'')
           | Some m \<Rightarrow>
               (case set_column m list_counter signal_vox of
                  Inl e \<Rightarrow> Inl e
                | Inr m' \<Rightarrow> column_loop body list_num rest (Some m'))))"

text \<open>
  \<open>convolve_hrf\<close>. The name \<open>logger\<close> is not defined anywhere in the module, so the
  branch that would warn raises \<open>NameError\<close>.
\<close>

definition convolve_hrf ::
  "real ndarray \<Rightarrow> real \<Rightarrow> hrf_type \<Rightarrow> bool \<Rightarrow> real \<Rightarrow> error + npfloat ndarray" where
  "convolve_hrf stimfunction tr_duration ht scale_function tres =
     (if shape0 stimfunction < shape1 stimfunction then Inl (NameError ''logger'')
      else
       (let stride = py_int (tres * tr_duration) in
       (case py_truediv (real (shape0 stimfunction)) (real_of_int stride) of
          Inl e \<Rightarrow> Inl e
        | Inr q \<Rightarrow>
           (let duration = py_int q in
           (case select_hrf ht tres of
              Inl e \<Rightarrow> Inl e
            | Inr hrf \<Rightarrow>
               (let list_num = shape1 stimfunction in
               (case column_loop
                       (signal_column stimfunction hrf stride duration scale_function)
                       list_num [0..<list_num] None of
                  Inl e \<Rightarrow> Inl e
                | Inr None \<Rightarrow> Inl (UnboundLocalError ''signal_function'')
                | Inr (Some signal_function) \<Rightarrow> Inr signal_function)))))))"

subsection \<open>Notions used in the statements\<close>

text \<open>
  The stride and the duration that \<open>convolve_hrf\<close> computes (the division is only
  evaluated for a non-zero stride).
\<close>

definition stride_of :: "real \<Rightarrow> real \<Rightarrow> int" where
  "stride_of tres tr_duration = py_int (tres * tr_duration)"

definition duration_of :: "'a ndarray \<Rightarrow> int \<Rightarrow> int" where
  "duration_of stimfunction stride = py_int (real (shape0 stimfunction) / real_of_int stride)"

text \<open>The array with \<open>n\<close> rows and \<open>k\<close> columns whose column \<open>c\<close> is \<open>v c\<close>.\<close>

definition of_columns :: "nat \<Rightarrow> nat \<Rightarrow> (nat \<Rightarrow> 'a list) \<Rightarrow> 'a ndarray" where
  "of_columns n k v =
     \<lparr>shape0 = n, shape1 = k, cells = map (\<lambda>r. map (\<lambda>c. v c ! r) [0..<k]) [0..<n]\<rparr>"

text \<open>A stimulus with column \<open>c\<close> multiplied by the number \<open>a\<close>.\<close>

definition scale_column :: "real \<Rightarrow> nat \<Rightarrow> real ndarray \<Rightarrow> real ndarray" where
  "scale_column a c m = m\<lparr>cells := map (\<lambda>r. r[c := a * r ! c]) (cells m)\<rparr>"

text \<open>The product of a number and a cell.\<close>

fun np_multiply :: "real \<Rightarrow> npfloat \<Rightarrow> npfloat" where
  "np_multiply a (Finite x) = Finite (a * x)"
| "np_multiply a Infinite = (if a = 0 then NaN else Infinite)"
| "np_multiply a NaN = NaN"

section \<open>Properties of the HRF synthesizer\<close>

subsection \<open>Range errors of the \<open>math\<close> library\<close>


lemma float_max_ge: "2 ^ 200 \<le> float_max"
  by (simp add: float_max_def)

lemma exp_le_float_max:
  assumes "x \<le> 100"
  shows "exp x \<le> float_max"
proof -
  have "exp x \<le> exp (of_nat 100 * 1)" using assms by simp
  also have "\<dots> = exp 1 ^ 100" by (rule exp_of_nat_mult)
  also have "\<dots> \<le> 3 ^ 100" by (intro power_mono exp_le) simp
  also have "\<dots> \<le> (4::real) ^ 100" by (intro power_mono) simp_all
  also have "\<dots> = 2 ^ 200" by simp
  also have "\<dots> \<le> float_max" by (rule float_max_ge)
  finally show ?thesis .
qed


lemma pow_le_float_max:
  assumes "0 \<le> x" and "x \<le> 60" and "n \<le> 100"
  shows "\<bar>x ^ n\<bar> \<le> float_max"
proof -
  have "\<bar>x ^ n\<bar> = x ^ n" using assms(1) by simp
  also have "\<dots> \<le> 60 ^ n" using assms(1,2) by (intro power_mono)
  also have "\<dots> \<le> (60::real) ^ 100" using assms(3) by (intro power_increasing) simp_all
  also have "\<dots> \<le> (64::real) ^ 100" by (intro power_mono) simp_all
  also have "\<dots> = (2 ^ 6) ^ 100" by simp
  also have "\<dots> = 2 ^ 600" by (simp only: power_mult[symmetric]) simp
  also have "\<dots> \<le> float_max" by (simp add: float_max_def)
  finally show ?thesis .
qed

lemma math_exp_Inr: "x \<le> 100 \<Longrightarrow> math_exp x = Inr (exp x)"
  using exp_le_float_max[of x] by (simp add: math_exp_def not_less)



lemma math_pow_of_nat:
  assumes "0 \<le> x" and "x \<le> 60" and "n \<le> 100"
  shows "math_pow x (real n) = Inr (x ^ n)"
proof -
  have "pow_value x (real n) = x ^ n"
    by (cases "n = 0") (auto simp: pow_value_def powr_realpow power_int_def)
  with pow_le_float_max[OF assms] assms(1) show ?thesis
    by (simp add: math_pow_def not_less)
qed

subsection \<open>The loop\<close>

lemma hrf_loop_Inr:
  "hrf_loop p rp up js hrf = Inr h \<Longrightarrow> distinct js \<Longrightarrow>
     length h = length hrf \<and>
     (\<forall>i\<in>set js. i < length hrf \<longrightarrow> hrf_value p rp up i = Inr (h ! i)) \<and>
     (\<forall>i. i \<notin> set js \<longrightarrow> h ! i = hrf ! i)"
proof (induction js arbitrary: hrf)
  case Nil
  then show ?case by simp
next
  case (Cons j js)
  from Cons.prems(1) obtain x where x: "hrf_value p rp up j = Inr x"
    and rest: "hrf_loop p rp up js (hrf[j := x]) = Inr h"
    by (auto split: sum.splits)
  from Cons.prems(2) have d: "distinct js" and nj: "j \<notin> set js" by simp_all
  from Cons.IH[OF rest d]
  have len: "length h = length hrf"
    and vals: "\<forall>i\<in>set js. i < length hrf \<longrightarrow> hrf_value p rp up i = Inr (h ! i)"
    and keep: "\<forall>i. i \<notin> set js \<longrightarrow> h ! i = hrf[j := x] ! i"
    by simp_all
  from keep nj have "j < length hrf \<longrightarrow> h ! j = x" by simp
  with x vals keep len show ?case by auto
qed

lemma hrf_loop_total:
  "\<forall>i\<in>set js. \<exists>x. hrf_value p rp up i = Inr x \<Longrightarrow> \<exists>h. hrf_loop p rp up js hrf = Inr h"
  by (induction js arbitrary: hrf) (auto split: sum.splits)


lemma py_int_nonpos: "x \<le> 0 \<Longrightarrow> py_int x \<le> 0"
  by (auto simp: py_int_def ceiling_le_zero)

lemma hrf_value_formula:
  "hrf_value p rp up i = Inr x \<Longrightarrow>
     x = response_scale p * pow_value (real i / temporal_resolution p / rp) (response_delay p)
           * exp (- (real i / temporal_resolution p - rp) / response_dispersion p)
       - undershoot_scale p * pow_value (real i / temporal_resolution p / up) (undershoot_delay p)
           * exp (- (real i / temporal_resolution p - up / undershoot_dispersion p))"
  by (auto simp: hrf_value_def py_truediv_def math_pow_def math_exp_def Let_def
           split: if_splits sum.splits)

text \<open>With the default shape parameters no sample before second 30 raises.\<close>

lemma hrf_value_default:
  assumes "0 < tres" and "real i / tres < 30"
  shows "\<exists>x. hrf_value (default_params tres) (27 / 5) (54 / 5) i = Inr x"
proof -
  let ?t = "real i / tres"
  have t0: "0 \<le> ?t" using assms(1) by simp
  have rb: "math_pow (?t / (27 / 5)) (real 6) = Inr ((?t / (27 / 5)) ^ 6)"
    using t0 assms(2) by (intro math_pow_of_nat) simp_all
  have ub: "math_pow (?t / (54 / 5)) (real 12) = Inr ((?t / (54 / 5)) ^ 12)"
    using t0 assms(2) by (intro math_pow_of_nat) simp_all
  have ra: "math_exp (- (?t - 27 / 5) / (9 / 10)) = Inr (exp (- (?t - 27 / 5) / (9 / 10)))"
    using t0 by (intro math_exp_Inr) simp
  have ua: "math_exp (- (?t - 54 / 5 / (9 / 10))) = Inr (exp (- (?t - 54 / 5 / (9 / 10))))"
    using t0 by (intro math_exp_Inr) simp
  from assms(1) have "tres \<noteq> 0" by simp
  then show ?thesis
    using rb ub ra ua
    by (simp add: hrf_value_def default_params_def py_truediv_def Let_def)
qed

lemma double_gamma_hrf_Inr:
  assumes "double_gamma_hrf p = Inr hrf"
  shows "length hrf = nat (py_int (30 * temporal_resolution p))"
    and "i + 1 < length hrf \<Longrightarrow>
           hrf_value p (response_delay p * response_dispersion p)
             (undershoot_delay p * undershoot_dispersion p) i = Inr (hrf ! i)"
    and "hrf \<noteq> [] \<Longrightarrow> last hrf = 0"
proof -
  let ?n = "nat (py_int (30 * temporal_resolution p))"
  let ?rp = "response_delay p * response_dispersion p"
  let ?up = "undershoot_delay p * undershoot_dispersion p"
  from assms have loop: "hrf_loop p ?rp ?up [0..<?n - 1] (replicate ?n 0) = Inr hrf"
    by (simp add: double_gamma_hrf_def Let_def)
  from hrf_loop_Inr[OF loop]
  have len: "length hrf = ?n"
    and vals: "\<forall>i\<in>set [0..<?n - 1]. i < ?n \<longrightarrow> hrf_value p ?rp ?up i = Inr (hrf ! i)"
    and keep: "\<forall>i. i \<notin> set [0..<?n - 1] \<longrightarrow> hrf ! i = replicate ?n (0::real) ! i"
    by simp_all
  show "length hrf = ?n" by (rule len)
  show "hrf_value p ?rp ?up i = Inr (hrf ! i)" if "i + 1 < length hrf"
    using that vals len by simp
  show "last hrf = 0" if "hrf \<noteq> []"
  proof -
    from that have "0 < length hrf" by simp
    with len have pos: "0 < ?n" by presburger
    have "last hrf = hrf ! (?n - 1)" using that len by (simp add: last_conv_nth)
    also have "\<dots> = replicate ?n (0::real) ! (?n - 1)" using keep by simp
    also have "\<dots> = 0" using pos by simp
    finally show ?thesis .
  qed
qed

lemma default_hrf_returns: "\<exists>hrf. double_gamma_hrf (default_params tres) = Inr hrf"
proof (cases "0 < tres")
  case True
  let ?n = "nat (py_int (30 * tres))"
  have "\<exists>x. hrf_value (default_params tres) (27 / 5) (54 / 5) i = Inr x"
    if "i \<in> set [0..<?n - 1]" for i
  proof -
    from that have "i + 1 < ?n" by simp
    then have "int i + 1 < py_int (30 * tres)" by linarith
    moreover have "py_int (30 * tres) = \<lfloor>30 * tres\<rfloor>" using True by (simp add: py_int_def)
    ultimately have "real_of_int (int i + 1) < real_of_int \<lfloor>30 * tres\<rfloor>" by simp
    also have "\<dots> \<le> 30 * tres" by (rule of_int_floor_le)
    finally have "real i < 30 * tres" by simp
    then have "real i / tres < 30" using True by (simp add: pos_divide_less_eq)
    with True show ?thesis by (rule hrf_value_default)
  qed
  then have "\<exists>h. hrf_loop (default_params tres) (27 / 5) (54 / 5) [0..<?n - 1] (replicate ?n 0) = Inr h"
    by (intro hrf_loop_total) blast
  then show ?thesis
    by (simp add: double_gamma_hrf_def Let_def default_params_def)
next
  case False
  then have "30 * tres \<le> 0" by simp
  then have "nat (py_int (30 * tres)) = 0"
    using py_int_nonpos by simp
  then show ?thesis by (simp add: double_gamma_hrf_def Let_def default_params_def)
qed

text \<open>
  \<open>pow_value\<close> is the power function: the natural-number power for an exponent such as
  the default delays 6 and 12, and the real power on a non-negative base.
\<close>

lemma pow_value_of_nat: "pow_value x (real n) = x ^ n"
  by (cases "n = 0") (auto simp: pow_value_def powr_realpow power_int_def)

lemma pow_value_powr: "0 \<le> x \<Longrightarrow> 0 < y \<Longrightarrow> pow_value x y = x powr y"
  by (auto simp: pow_value_def)

lemma default_tenth:
  "double_gamma_hrf (default_params (1 / 10)) =
     Inr [0, (50 / 27) ^ 6 * exp (- (46 / 9)) - 7 * (25 / 27) ^ 12 * exp 2 / 200, 0]"
proof -
  have p6: "math_pow x 6 = Inr (x ^ 6)" if "0 \<le> x" "x \<le> 60" for x
    using math_pow_of_nat[OF that, of 6] by simp
  have p12: "math_pow x 12 = Inr (x ^ 12)" if "0 \<le> x" "x \<le> 60" for x
    using math_pow_of_nat[OF that, of 12] by simp
  show ?thesis
    by (simp add: double_gamma_hrf_def default_params_def py_int_def hrf_value_def py_truediv_def
        p6 p12 math_exp_Inr Let_def upt_conv_Cons eval_nat_numeral)
qed

subsection \<open>The samples\<close>

text \<open>
  Claim C2. Whenever the synthesizer returns a sequence \<open>hrf\<close>, every index \<open>i\<close> from 0
  to \<open>len(hrf) - 2\<close> holds, with \<open>t = i / temporal_resolution\<close>,
  \<open>response_scale * (t / response_peak)^response_delay *
   exp(-(t - response_peak) / response_dispersion)
   - undershoot_scale * (t / undershoot_peak)^undershoot_delay *
   exp(-(t - undershoot_peak / undershoot_dispersion))\<close>:
  in the undershoot's exponent only \<open>undershoot_peak\<close> is divided by the dispersion.
\<close>

theorem double_gamma_hrf_samples:
  assumes "double_gamma_hrf p = Inr hrf" and "i + 2 \<le> length hrf"
  shows "hrf ! i =
      (let t = real i / temporal_resolution p;
           response_peak = response_delay p * response_dispersion p;
           undershoot_peak = undershoot_delay p * undershoot_dispersion p
       in response_scale p * pow_value (t / response_peak) (response_delay p)
             * exp (- (t - response_peak) / response_dispersion p)
          - undershoot_scale p * pow_value (t / undershoot_peak) (undershoot_delay p)
             * exp (- (t - undershoot_peak / undershoot_dispersion p)))"
proof -
  from assms(2) have "i + 1 < length hrf" by simp
  from double_gamma_hrf_Inr(2)[OF assms(1) this] show ?thesis
    unfolding Let_def by (rule hrf_value_formula)
qed

theorem double_gamma_hrf_samples_witness:
  "double_gamma_hrf (default_params (1 / 10)) =
     Inr [0, (50 / 27) ^ 6 * exp (- (46 / 9)) - 7 * (25 / 27) ^ 12 * exp 2 / 200, 0]
   \<and> (50 / 27) ^ 6 * exp (- (46 / 9)) - 7 * (25 / 27) ^ 12 * exp 2 / 200 =
       1 * pow_value (10 / (27 / 5)) 6 * exp (- (10 - 27 / 5) / (9 / 10))
       - 35 / 1000 * pow_value (10 / (54 / 5)) 12 * exp (- (10 - (54 / 5) / (9 / 10)))"
proof -
  let ?x = "(50 / 27) ^ 6 * exp (- (46 / 9)) - 7 * (25 / 27) ^ 12 * exp 2 / (200::real)"
  have "1 + 2 \<le> length [0, ?x, 0]" by simp
  from double_gamma_hrf_samples[OF default_tenth this]
  have "?x = 1 * pow_value (10 / (27 / 5)) 6 * exp (- (10 - 27 / 5) / (9 / 10))
       - 35 / 1000 * pow_value (10 / (54 / 5)) 12 * exp (- (10 - (54 / 5) / (9 / 10)))"
    by (simp add: default_params_def Let_def)
  with default_tenth show ?thesis by blast
qed

subsection \<open>Length and last value\<close>




section \<open>Properties of the convolution\<close>

subsection \<open>Slices\<close>

lemma slice_indices_in_range:
  assumes "i \<in> set (slice_indices len start step)" and "step \<noteq> 0"
  shows "i < len"
proof (cases "0 < step")
  case True
  define lo where "lo = (if start < 0 then max 0 (start + int len) else min start (int len))"
  define cnt where "cnt = nat ((int len - lo + step - 1) div step)"
  have lo0: "0 \<le> lo" "lo \<le> int len" by (auto simp: lo_def)
  from assms(1) True obtain k where k: "k < cnt" and i: "i = nat (lo + int k * step)"
    by (auto simp: slice_indices_def Let_def lo_def cnt_def)
  from k have "int k + 1 \<le> (int len - lo + step - 1) div step"
    by (simp add: cnt_def)
  then have "(int k + 1) * step \<le> ((int len - lo + step - 1) div step) * step"
    using True by (simp add: mult_right_mono)
  also have "\<dots> = (int len - lo + step - 1) - (int len - lo + step - 1) mod step"
    by (simp add: minus_mod_eq_div_mult)
  also have "\<dots> \<le> int len - lo + step - 1"
    using pos_mod_sign[OF True, of "int len - lo + step - 1"] by linarith
  finally have "lo + int k * step < int len" by (simp add: algebra_simps)
  moreover have "0 \<le> lo + int k * step" using True lo0 by simp
  ultimately show ?thesis unfolding i by (simp add: nat_less_iff)
next
  case False
  with assms(2) have neg: "step < 0" by simp
  define hi where "hi = (if start < 0 then max (- 1) (start + int len) else min start (int len - 1))"
  define cnt where "cnt = nat ((hi - step) div (- step))"
  have hi0: "- 1 \<le> hi" "hi < int len" by (auto simp: hi_def)
  from assms(1) False obtain k where k: "k < cnt" and i: "i = nat (hi + int k * step)"
    by (auto simp: slice_indices_def Let_def hi_def cnt_def)
  have "hi \<noteq> - 1"
  proof
    assume "hi = - 1"
    then have "cnt = 0" using neg by (simp add: cnt_def div_pos_pos_trivial)
    with k show False by simp
  qed
  moreover have "int k * step \<le> 0" using neg by (simp add: mult_nonneg_nonpos)
  ultimately show ?thesis using i hi0 by linarith
qed

lemma slice_start_step_map:
  "slice_start_step (map f a) start step = map_sum id (map f) (slice_start_step a start step)"
  by (auto simp: slice_start_step_def dest: slice_indices_in_range)

lemma slice_stop_map: "slice_stop (map f a) stop = map f (slice_stop a stop)"
  by (simp add: slice_stop_def take_map)

lemma slice_stop_length:
  "length a = length b \<Longrightarrow> length (slice_stop a stop) = length (slice_stop b stop)"
  by (simp add: slice_stop_def)

lemma slice_start_step_length:
  "slice_start_step a start step = Inr v \<Longrightarrow> length b = length a \<Longrightarrow>
     \<exists>w. slice_start_step b start step = Inr w \<and> length w = length v"
  by (auto simp: slice_start_step_def split: if_splits)

lemma slice_start_step_subset:
  "slice_start_step a start step = Inr v \<Longrightarrow> set v \<subseteq> set a"
  by (auto simp: slice_start_step_def split: if_splits
        dest!: slice_indices_in_range intro!: nth_mem)

lemma slice_stop_subset: "set (slice_stop a stop) \<subseteq> set a"
  by (auto simp: slice_stop_def dest: in_set_takeD)

text \<open>The indices read for a positive stride: the midpoint of each window.\<close>

lemma slice_indices_window:
  assumes "0 < st"
  shows "slice_indices (d * st) (int (st div 2)) (int st) = map (\<lambda>k. k * st + st div 2) [0..<d]"
proof -
  have half: "st div 2 < st" using assms by simp
  have lo: "min (int (st div 2)) (int (d * st)) = (if d = 0 then 0 else int (st div 2))"
  proof (cases "d = 0")
    case True then show ?thesis by simp
  next
    case False
    then have "st \<le> d * st" by (cases d) simp_all
    with half have "int (st div 2) \<le> int (d * st)" by linarith
    with False show ?thesis by (simp only: min_absorb1 if_False)
  qed
  have cnt: "nat ((int (d * st) - (if d = 0 then 0 else int (st div 2)) + int st - 1) div int st) = d"
  proof (cases "d = 0")
    case True
    have "(int st - 1) div int st = 0" using assms by (simp add: div_pos_pos_trivial)
    with True show ?thesis by simp
  next
    case False
    have "int (d * st) - int (st div 2) + int st - 1 = int (st - 1 - st div 2) + int d * int st"
      using half by (simp add: algebra_simps of_nat_diff)
    also have "\<dots> div int st = int (st - 1 - st div 2) div int st + int d"
      using assms by simp
    also have "int (st - 1 - st div 2) div int st = 0"
      using assms by (intro div_pos_pos_trivial) auto
    finally show ?thesis using False by simp
  qed
  have el: "nat (int (st div 2) + int k * int st) = k * st + st div 2" for k
  proof -
    have "int (st div 2) + int k * int st = int (k * st + st div 2)" by simp
    then show ?thesis by (simp only: nat_int)
  qed
  show ?thesis
    using assms unfolding slice_indices_def Let_def
    by (simp add: lo cnt el del: of_nat_mult of_nat_add)
qed

subsection \<open>The column loop\<close>

lemma length_column [simp]: "length (column m c) = length (cells m)"
  by (simp add: column_def)

lemma map_upt_update:
  "j < k \<Longrightarrow> (map g [0..<k])[j := y] = map (g(j := y)) [0..<k]"
  by (rule nth_equalityI) (auto simp: nth_list_update)

lemma set_column_of_columns:
  assumes "j < k" and "length x = n"
  shows "set_column (of_columns n k v) j x = Inr (of_columns n k (v(j := x)))"
proof -
  have "map2 (\<lambda>r y. r[j := y]) (map (\<lambda>r. map (\<lambda>c. v c ! r) [0..<k]) [0..<n]) x
        = map (\<lambda>r. map (\<lambda>c. (v(j := x)) c ! r) [0..<k]) [0..<n]"
  proof (rule nth_equalityI)
    show "length (map2 (\<lambda>r y. r[j := y]) (map (\<lambda>r. map (\<lambda>c. v c ! r) [0..<k]) [0..<n]) x)
          = length (map (\<lambda>r. map (\<lambda>c. (v(j := x)) c ! r) [0..<k]) [0..<n])"
      using assms(2) by simp
  next
    fix i
    assume "i < length (map2 (\<lambda>r y. r[j := y]) (map (\<lambda>r. map (\<lambda>c. v c ! r) [0..<k]) [0..<n]) x)"
    then have i: "i < n" by simp
    have "(map (\<lambda>c. v c ! i) [0..<k])[j := x ! i] = map ((\<lambda>c. v c ! i)(j := x ! i)) [0..<k]"
      using assms(1) by (rule map_upt_update)
    also have "\<dots> = map (\<lambda>c. (v(j := x)) c ! i) [0..<k]"
      by (rule map_cong) auto
    finally show "map2 (\<lambda>r y. r[j := y]) (map (\<lambda>r. map (\<lambda>c. v c ! r) [0..<k]) [0..<n]) x ! i
          = map (\<lambda>r. map (\<lambda>c. (v(j := x)) c ! r) [0..<k]) [0..<n] ! i"
      using i assms(2) by simp
  qed
  then show ?thesis using assms(2) by (simp add: set_column_def of_columns_def)
qed

lemma np_zeros_of_columns: "np_zeros n k = of_columns n k (\<lambda>c. replicate n (Finite 0))"
proof -
  have "replicate n (replicate k (Finite 0))
        = map (\<lambda>r. map (\<lambda>c. replicate n (Finite 0) ! r) [0..<k]) [0..<n]"
    by (rule nth_equalityI) (auto intro!: nth_equalityI)
  then show ?thesis by (simp add: np_zeros_def of_columns_def)
qed

lemma of_columns_cong:
  "(\<And>c. c < k \<Longrightarrow> v c = w c) \<Longrightarrow> of_columns n k v = of_columns n k w"
  by (simp add: of_columns_def)

lemma column_loop_from:
  assumes body: "\<And>c. c < k \<Longrightarrow> body c = Inr (v c) \<and> length (v c) = n"
    and "j < k"
    and "0 < j \<Longrightarrow> sf = Some (of_columns n k (\<lambda>c. if c < j then v c else replicate n (Finite 0)))"
  shows "column_loop body k [j..<k] sf = Inr (Some (of_columns n k v))"
  using assms(2,3)
proof (induction "k - j" arbitrary: j sf)
  case 0
  then show ?case by simp
next
  case (Suc m)
  let ?V = "\<lambda>j c. if c < j then v c else replicate n (Finite 0)"
  from Suc.prems(1) have upt: "[j..<k] = j # [Suc j..<k]" by (simp add: upt_conv_Cons)
  from body[OF Suc.prems(1)] have bj: "body j = Inr (v j)" and lj: "length (v j) = n"
    by simp_all
  have start: "(if j = 0 then Some (np_zeros (length (v j)) k) else sf) = Some (of_columns n k (?V j))"
  proof (cases "j = 0")
    case True
    with lj have "length (v 0) = n" by simp
    with True show ?thesis by (simp add: np_zeros_of_columns)
  next
    case False
    with Suc.prems(2) show ?thesis by simp
  qed
  have upd: "(?V j)(j := v j) = ?V (Suc j)" by (rule ext) auto
  have step: "column_loop body k [j..<k] sf
        = column_loop body k [Suc j..<k] (Some (of_columns n k (?V (Suc j))))"
    unfolding upt column_loop.simps bj sum.case start option.case
      set_column_of_columns[OF Suc.prems(1) lj] upd ..
  show ?case
  proof (cases "Suc j < k")
    case True
    from Suc.hyps(2) have "m = k - Suc j" by simp
    from Suc.hyps(1)[OF this True] show ?thesis unfolding step by simp
  next
    case False
    with Suc.prems(1) have k: "k = Suc j" by simp
    have "of_columns n k (?V (Suc j)) = of_columns n k v"
      by (rule of_columns_cong) (simp add: k)
    then show ?thesis unfolding step by (simp add: k)
  qed
qed

lemma column_loop_all:
  assumes "\<And>c. c < k \<Longrightarrow> body c = Inr (v c) \<and> length (v c) = n" and "0 < k"
  shows "column_loop body k [0..<k] None = Inr (Some (of_columns n k v))"
  using assms by (intro column_loop_from) simp_all

lemma column_loop_Inr_body:
  "column_loop body k cs sf = Inr r \<Longrightarrow> c \<in> set cs \<Longrightarrow> \<exists>x. body c = Inr x"
  by (induction cs arbitrary: sf) (auto split: sum.splits option.splits if_splits)

lemma column_loop_first_raises:
  "body c = Inl e \<Longrightarrow> column_loop body k (c # cs) sf = Inl e"
  by simp

subsection \<open>When the convolution returns\<close>

lemma np_convolve_length:
  "np_convolve a h = Inr conv \<Longrightarrow> length conv = length a + length h - 1"
  by (auto simp: np_convolve_def split: if_splits)

lemma np_convolve_same_length:
  "np_convolve a h = Inr conv \<Longrightarrow> length b = length a \<Longrightarrow>
     \<exists>conv'. np_convolve b h = Inr conv' \<and> length conv' = length conv"
  by (auto simp: np_convolve_def split: if_splits)

lemma downsample_lengths:
  assumes "downsample s hrf st d c = Inr vox"
  shows "\<exists>w. downsample s hrf st d c' = Inr w \<and> length w = length vox"
proof -
  from assms obtain h conv where h: "hrf = Some h"
    and conv: "np_convolve (column s c) h = Inr conv"
    and vox: "slice_start_step (slice_stop conv (d * st)) (py_int (real_of_int st / 2)) st = Inr vox"
    by (auto simp: downsample_def Let_def split: option.splits sum.splits)
  from np_convolve_same_length[OF conv, of "column s c'"] obtain conv'
    where conv': "np_convolve (column s c') h = Inr conv'" and len: "length conv' = length conv"
    by auto
  from len have "length (slice_stop conv' (d * st)) = length (slice_stop conv (d * st))"
    by (rule slice_stop_length)
  from slice_start_step_length[OF vox this] h conv' show ?thesis
    by (simp add: downsample_def Let_def)
qed

lemma scale_signal_length: "scale_signal sc vox = Inr y \<Longrightarrow> length y = length vox"
  by (auto simp: scale_signal_def split: if_splits sum.splits)

lemma scale_signal_same_length:
  "scale_signal sc vox = Inr y \<Longrightarrow> length w = length vox \<Longrightarrow> \<exists>z. scale_signal sc w = Inr z"
  by (cases vox; cases w) (auto simp: scale_signal_def np_max_def split: if_splits)

lemma signal_column_lengths:
  assumes "signal_column s hrf st d sc c = Inr y"
  shows "\<exists>z. signal_column s hrf st d sc c' = Inr z \<and> length z = length y"
proof -
  from assms obtain vox where vox: "downsample s hrf st d c = Inr vox"
    and y: "scale_signal sc vox = Inr y"
    by (auto simp: signal_column_def split: sum.splits)
  from downsample_lengths[OF vox, of c'] obtain w
    where w: "downsample s hrf st d c' = Inr w" and len: "length w = length vox" by auto
  from scale_signal_same_length[OF y len] obtain z where z: "scale_signal sc w = Inr z" ..
  from scale_signal_length[OF z] scale_signal_length[OF y] len have "length z = length y" by simp
  with w z show ?thesis by (simp add: signal_column_def)
qed

text \<open>When \<open>convolve_hrf\<close> returns, and what.\<close>

lemma convolve_hrf_returns:
  assumes "shape1 s \<le> shape0 s" and "0 < shape1 s" and "stride_of tres trd \<noteq> 0"
    and "select_hrf ht tres = Inr hrf"
    and "\<And>c. c < shape1 s \<Longrightarrow>
           signal_column s hrf (stride_of tres trd) (duration_of s (stride_of tres trd)) sc c = Inr (v c)
           \<and> length (v c) = n"
  shows "convolve_hrf s trd ht sc tres = Inr (of_columns n (shape1 s) v)"
proof -
  have loop: "column_loop
          (signal_column s hrf (py_int (tres * trd))
             (py_int (real (shape0 s) / real_of_int (py_int (tres * trd)))) sc)
          (shape1 s) [0..<shape1 s] None = Inr (Some (of_columns n (shape1 s) v))"
    using assms(5) assms(2) unfolding stride_of_def duration_of_def by (rule column_loop_all)
  from assms(1) have "\<not> shape0 s < shape1 s" by simp
  moreover from assms(3) have "py_int (tres * trd) \<noteq> 0" by (simp add: stride_of_def)
  ultimately show ?thesis
    using assms(4) loop by (simp add: convolve_hrf_def py_truediv_def Let_def)
qed

lemma convolve_hrf_Inr:
  assumes "convolve_hrf s trd ht sc tres = Inr out"
  obtains hrf v where "shape1 s \<le> shape0 s" and "0 < shape1 s" and "stride_of tres trd \<noteq> 0"
    and "select_hrf ht tres = Inr hrf"
    and "\<And>c. signal_column s hrf (stride_of tres trd) (duration_of s (stride_of tres trd)) sc c
              = Inr (v c)"
    and "\<And>c. length (v c) = length (v 0)"
    and "out = of_columns (length (v 0)) (shape1 s) v"
proof -
  let ?st = "stride_of tres trd"
  let ?d = "duration_of s ?st"
  from assms have shape: "shape1 s \<le> shape0 s"
    by (auto simp: convolve_hrf_def split: if_splits)
  from assms shape have st: "?st \<noteq> 0"
    by (auto simp: convolve_hrf_def stride_of_def py_truediv_def Let_def split: if_splits)
  from assms shape st obtain hrf where hrf: "select_hrf ht tres = Inr hrf"
    and loop: "column_loop (signal_column s hrf ?st ?d sc) (shape1 s) [0..<shape1 s] None
                 = Inr (Some out)"
    by (auto simp: convolve_hrf_def stride_of_def duration_of_def py_truediv_def Let_def
             split: if_splits sum.splits option.splits)
  have cols: "0 < shape1 s"
  proof (rule ccontr)
    assume "\<not> 0 < shape1 s"
    with loop show False by simp
  qed
  from column_loop_Inr_body[OF loop, of 0] cols obtain y0
    where y0: "signal_column s hrf ?st ?d sc 0 = Inr y0" by auto
  have "\<exists>z. signal_column s hrf ?st ?d sc c = Inr z \<and> length z = length y0" for c
    using signal_column_lengths[OF y0] .
  then obtain v where v: "\<And>c. signal_column s hrf ?st ?d sc c = Inr (v c) \<and> length (v c) = length y0"
    by metis
  from v[of 0] have l0: "length (v 0) = length y0" by simp
  have "convolve_hrf s trd ht sc tres = Inr (of_columns (length y0) (shape1 s) v)"
    using shape cols st hrf v by (intro convolve_hrf_returns) auto
  with assms have "out = of_columns (length (v 0)) (shape1 s) v" by (simp add: l0)
  with shape cols st hrf v l0 that show ?thesis by metis
qed

lemma of_columns_shape [simp]:
  "shape0 (of_columns n k v) = n" "shape1 (of_columns n k v) = k"
  by (simp_all add: of_columns_def)

lemma of_columns_cell:
  "r < n \<Longrightarrow> c < k \<Longrightarrow> cells (of_columns n k v) ! r ! c = v c ! r"
  by (simp add: of_columns_def)

lemma of_columns_column:
  "c < k \<Longrightarrow> length (v c) = n \<Longrightarrow> column (of_columns n k v) c = v c"
  by (auto simp: of_columns_def column_def intro!: nth_equalityI)

lemma of_columns_wf: "wf_ndarray (of_columns n k v)"
  by (simp add: wf_ndarray_def of_columns_def list_all_iff)

lemmas conv_eval = convolve_hrf_def select_hrf_def signal_column_def downsample_def
  scale_signal_def np_convolve_def convolve_at_def np_max_def np_divide_def slice_stop_def
  slice_start_step_def slice_indices_def set_column_def np_zeros_def column_def py_int_def
  py_truediv_def Let_def upt_conv_Cons eval_nat_numeral

subsection \<open>The unscaled output\<close>

lemma py_int_of_nat_div: "py_int (real m / real n) = int (m div n)"
  by (simp add: py_int_def floor_divide_of_nat_eq)

lemma py_int_half: "py_int (real st / 2) = int (st div 2)"
  using py_int_of_nat_div[of st 2] by simp

lemma stride_of_positive:
  assumes "0 < tres" and "0 < trd"
  shows "stride_of tres trd = \<lfloor>tres * trd\<rfloor>"
  using assms by (simp add: stride_of_def py_int_def)

lemma duration_of_nat: "duration_of s (int st) = int (shape0 s div st)"
  using py_int_of_nat_div[of "shape0 s" st] by (simp add: duration_of_def)

lemma np_convolve_Inr:
  "a \<noteq> [] \<Longrightarrow> h \<noteq> [] \<Longrightarrow>
     np_convolve a h = Inr (map (convolve_at a h) [0..<length a + length h - 1])"
  by (simp add: np_convolve_def)

lemma downsample_window:
  assumes "0 < st" and "np_convolve (column s c) h = Inr conv" and "d * st \<le> length conv"
  shows "downsample s (Some h) (int st) (int d) c
           = Inr (map (\<lambda>k. take (d * st) conv ! (k * st + st div 2)) [0..<d])"
proof -
  have stop: "slice_stop conv (int d * int st) = take (d * st) conv"
    by (simp add: slice_stop_def nat_mult_distrib)
  have len: "length (take (d * st) conv) = d * st" using assms(3) by simp
  have "slice_start_step (take (d * st) conv) (int (st div 2)) (int st)
          = Inr (map (\<lambda>i. take (d * st) conv ! i) (map (\<lambda>k. k * st + st div 2) [0..<d]))"
    using assms(1) unfolding slice_start_step_def len slice_indices_window[OF assms(1)] by simp
  then show ?thesis
    using assms(2) by (simp add: downsample_def Let_def stop py_int_half comp_def)
qed

lemma window_index:
  fixes st k d :: nat
  assumes "0 < st" and "k < d"
  shows "k * st + st div 2 < d * st"
proof -
  have "st div 2 < st" using assms(1) by simp
  moreover from assms(2) have "Suc k * st \<le> d * st" by (intro mult_le_mono1) simp
  ultimately show ?thesis by simp
qed

text \<open>
  Claim C1, as it is stated, at a stimulus with one row and one column, \<open>tr_duration = 100\<close>
  and \<open>temporal_resolution = 1/100\<close> (so stride 1 and duration 1) and the default
  \<open>hrf_type\<close>: the built-in HRF has \<open>floor(30/100) = 0\<close> samples, and \<open>np.convolve\<close>
  raises on it; no matrix is returned.
\<close>

theorem convolve_hrf_empty_hrf_raises:
  "0 < (100::real) \<and> 0 < (1 / 100 ::real)
   \<and> nat \<lfloor>(1 / 100) * (100::real)\<rfloor> = 1 \<and> (1::nat) div 1 = 1
   \<and> convolve_hrf \<lparr>shape0 = 1, shape1 = 1, cells = [[1]]\<rparr> 100 (HrfStr ''double_gamma'') False (1 / 100)
       = Inl (ValueError ''v cannot be empty'')"
  by (simp add: conv_eval double_gamma_hrf_def default_params_def)

text \<open>
  Claim C1, amended. For every stimulus with \<open>R\<close> rows and \<open>C\<close> columns,
  \<open>1 \<le> C \<le> R\<close>, every positive \<open>tr_duration\<close> and \<open>temporal_resolution\<close> with
  \<open>stride = floor(temporal_resolution * tr_duration) \<ge> 1\<close> and
  \<open>duration = floor(R / stride) \<ge> 1\<close>, an \<open>hrf_type\<close> that gives a non-empty HRF
  sequence, and \<open>scale_function = false\<close>: \<open>convolve_hrf\<close> returns a matrix with exactly
  \<open>duration\<close> rows and \<open>C\<close> columns whose entry at row \<open>k\<close>, column \<open>c\<close> is the full
  linear convolution of column \<open>c\<close> with the HRF, truncated to its first
  \<open>duration * stride\<close> samples, at index \<open>k * stride + floor(stride / 2)\<close>. That entry
  is the sum \<open>convolve_at\<close> at this index.
\<close>

theorem convolve_hrf_unscaled_entries:
  assumes "wf_ndarray stimfunction"
    and "0 < shape1 stimfunction" and "shape1 stimfunction \<le> shape0 stimfunction"
    and "0 < tr_duration" and "0 < tres"
    and "stride = nat \<lfloor>tres * tr_duration\<rfloor>" and "1 \<le> stride"
    and "duration = shape0 stimfunction div stride" and "1 \<le> duration"
    and "select_hrf ht tres = Inr (Some hrf)" and "hrf \<noteq> []"
  shows "\<exists>out. convolve_hrf stimfunction tr_duration ht False tres = Inr out
           \<and> shape0 out = duration \<and> shape1 out = shape1 stimfunction \<and> wf_ndarray out
           \<and> (\<forall>c<shape1 stimfunction. \<exists>conv.
                 np_convolve (column stimfunction c) hrf = Inr conv
                 \<and> (\<forall>k<duration.
                       cells out ! k ! c
                         = Finite (take (duration * stride) conv ! (k * stride + stride div 2))
                       \<and> take (duration * stride) conv ! (k * stride + stride div 2)
                         = convolve_at (column stimfunction c) hrf (k * stride + stride div 2)))"
proof -
  let ?s = stimfunction
  let ?conv = "\<lambda>c. map (convolve_at (column ?s c) hrf) [0..<shape0 ?s + length hrf - 1]"
  let ?v = "\<lambda>c. map Finite (map (\<lambda>k. take (duration * stride) (?conv c) ! (k * stride + stride div 2))
                 [0..<duration])"
  from assms(1) have rows: "length (cells ?s) = shape0 ?s" by (simp add: wf_ndarray_def)
  from assms(2,3) have "0 < shape0 ?s" by simp
  with rows have ne: "column ?s c \<noteq> []" for c by (auto simp: column_def)
  have conv: "np_convolve (column ?s c) hrf = Inr (?conv c)" for c
    using np_convolve_Inr[OF ne assms(11), of c] by (simp add: rows)
  have st: "stride_of tres tr_duration = int stride"
    using assms(4-7) by (simp add: stride_of_positive)
  have d: "duration_of ?s (int stride) = int duration"
    using assms(8) by (simp add: duration_of_nat)
  have pos: "0 < stride" using assms(7) by simp
  have "duration * stride \<le> shape0 ?s" using assms(8) by simp
  moreover have "1 \<le> length hrf" using assms(11) by (cases hrf) simp_all
  ultimately have fit: "duration * stride \<le> length (?conv c)" for c by simp
  have col: "signal_column ?s (Some hrf) (stride_of tres tr_duration)
               (duration_of ?s (stride_of tres tr_duration)) False c = Inr (?v c)
             \<and> length (?v c) = duration" for c
    unfolding st d signal_column_def downsample_window[OF pos conv fit]
    by (simp add: scale_signal_def)
  have st0: "stride_of tres tr_duration \<noteq> 0" using st pos by simp
  have res: "convolve_hrf ?s tr_duration ht False tres = Inr (of_columns duration (shape1 ?s) ?v)"
    using assms(3,2) st0 assms(10) col by (rule convolve_hrf_returns)
  have entries: "cells (of_columns duration (shape1 ?s) ?v) ! k ! c
                   = Finite (take (duration * stride) (?conv c) ! (k * stride + stride div 2))
                 \<and> take (duration * stride) (?conv c) ! (k * stride + stride div 2)
                   = convolve_at (column ?s c) hrf (k * stride + stride div 2)"
    if "c < shape1 ?s" and "k < duration" for c k
  proof -
    from window_index[OF pos that(2)] have i: "k * stride + stride div 2 < duration * stride" .
    with fit[of c] have "k * stride + stride div 2 < shape0 ?s + length hrf - 1" by simp
    with i have "take (duration * stride) (?conv c) ! (k * stride + stride div 2)
          = convolve_at (column ?s c) hrf (k * stride + stride div 2)" by simp
    moreover have "cells (of_columns duration (shape1 ?s) ?v) ! k ! c = ?v c ! k"
      by (rule of_columns_cell[OF that(2) that(1)])
    ultimately show ?thesis using that(2) by simp
  qed
  show ?thesis
    using res conv entries of_columns_wf[of duration "shape1 ?s" ?v] by (intro exI conjI) auto
qed

theorem convolve_hrf_unscaled_entries_witness:
  "wf_ndarray \<lparr>shape0 = 4, shape1 = 1, cells = [[1], [0], [0], [0::real]]\<rparr>
   \<and> (1::nat) = nat \<lfloor>1 * (1::real)\<rfloor> \<and> (4::nat) = 4 div 1
   \<and> select_hrf (HrfList [1, 2, 3]) 1 = Inr (Some [1, 2, 3])
   \<and> (\<exists>out. convolve_hrf \<lparr>shape0 = 4, shape1 = 1, cells = [[1], [0], [0], [0]]\<rparr> 2
                (HrfList [1, 2, 3]) False 1 = Inr out
         \<and> shape0 out = 2 \<and> shape1 out = 1
         \<and> cells out ! 0 ! 0 = Finite (take 4 [1, 2, 3, 0, 0, 0] ! 1)
         \<and> cells out ! 1 ! 0 = Finite (take 4 [1, 2, 3, 0, 0, 0] ! 3))"
proof -
  let ?s = "\<lparr>shape0 = 4, shape1 = 1, cells = [[1], [0], [0], [0::real]]\<rparr>"
  have wf: "wf_ndarray ?s" by (simp add: wf_ndarray_def)
  have sel: "select_hrf (HrfList [1, 2, 3]) 1 = Inr (Some [1, 2, 3])" by (simp add: select_hrf_def)
  have conv: "np_convolve (column ?s 0) [1, 2, 3] = Inr [1, 2, 3, 0, 0, 0]"
    by (simp add: np_convolve_def convolve_at_def column_def upt_conv_Cons)
  have "\<exists>out. convolve_hrf ?s 2 (HrfList [1, 2, 3]) False 1 = Inr out
           \<and> shape0 out = 2 \<and> shape1 out = shape1 ?s \<and> wf_ndarray out
           \<and> (\<forall>c<shape1 ?s. \<exists>conv.
                 np_convolve (column ?s c) [1, 2, 3] = Inr conv
                 \<and> (\<forall>k<2. cells out ! k ! c = Finite (take (2 * 2) conv ! (k * 2 + 2 div 2))
                       \<and> take (2 * 2) conv ! (k * 2 + 2 div 2)
                         = convolve_at (column ?s c) [1, 2, 3] (k * 2 + 2 div 2)))"
    by (rule convolve_hrf_unscaled_entries[OF wf _ _ _ _ _ _ _ _ sel]) simp_all
  then obtain out where out: "convolve_hrf ?s 2 (HrfList [1, 2, 3]) False 1 = Inr out"
    and sh: "shape0 out = 2" "shape1 out = 1"
    and ent: "\<forall>c<1. \<exists>conv. np_convolve (column ?s c) [1, 2, 3] = Inr conv
                 \<and> (\<forall>k<2. cells out ! k ! c = Finite (take (2 * 2) conv ! (k * 2 + 2 div 2))
                       \<and> take (2 * 2) conv ! (k * 2 + 2 div 2)
                         = convolve_at (column ?s c) [1, 2, 3] (k * 2 + 2 div 2))"
    by auto
  from ent obtain cv where cv: "np_convolve (column ?s 0) [1, 2, 3] = Inr cv"
    and e: "\<forall>k<2. cells out ! k ! 0 = Finite (take (2 * 2) cv ! (k * 2 + 2 div 2))
                       \<and> take (2 * 2) cv ! (k * 2 + 2 div 2)
                         = convolve_at (column ?s 0) [1, 2, 3] (k * 2 + 2 div 2)"
    by blast
  from cv conv have cv': "cv = [1, 2, 3, 0, 0, 0]" by simp
  from e[rule_format, of 0] have "cells out ! 0 ! 0 = Finite (take 4 [1, 2, 3, 0, 0, 0] ! 1)"
    unfolding cv' by simp
  moreover from e[rule_format, of 1] have "cells out ! 1 ! 0 = Finite (take 4 [1, 2, 3, 0, 0, 0] ! 3)"
    unfolding cv' by simp
  ultimately have "cells out ! 0 ! 0 = Finite (take 4 [1, 2, 3, 0, 0, 0] ! 1)"
    and "cells out ! 1 ! 0 = Finite (take 4 [1, 2, 3, 0, 0, 0] ! 3)"
    by blast+
  with wf sel out sh show ?thesis by simp
qed

subsection \<open>A stimulus shorter than one TR\<close>







subsection \<open>An \<open>hrf_type\<close> that binds no HRF\<close>

lemma select_hrf_not_bound:
  assumes "ht \<noteq> HrfStr ''double_gamma''" and "\<And>l. ht \<noteq> HrfList l"
  shows "select_hrf ht tres = (case eq_double_gamma ht of Inl e \<Rightarrow> Inl e | Inr b \<Rightarrow> Inr None)"
  using assms by (cases ht) (auto simp: select_hrf_def)

text \<open>
  Claim C9, as it is stated, at two inputs. With \<open>hrf_type = 'gamma'\<close>,
  \<open>tr_duration = 1/200\<close> and \<open>temporal_resolution = 100\<close> the stride is \<open>int(0.5) = 0\<close>
  and the division by it raises \<open>ZeroDivisionError\<close> before \<open>hrf\<close> is ever read. With
  \<open>hrf_type\<close> the NumPy array \<open>[1.0, 2.0]\<close> the test \<open>hrf_type == 'double_gamma'\<close> itself
  raises \<open>ValueError\<close>.
\<close>

theorem convolve_hrf_zero_stride_raises:
  "convolve_hrf \<lparr>shape0 = 1, shape1 = 1, cells = [[1]]\<rparr> (1 / 200) (HrfStr ''gamma'') True 100
     = Inl ZeroDivisionError
   \<and> convolve_hrf \<lparr>shape0 = 2, shape1 = 1, cells = [[1], [0]]\<rparr> 1 (HrfArray [1, 2]) True 1
     = Inl (ValueError ''The truth value of an array with more than one element is ambiguous'')"
  by (simp add: conv_eval)

text \<open>
  Claim C9, amended. For every \<open>hrf_type\<close> that is neither the string \<open>'double_gamma'\<close>
  nor a list, every stimulus with at least as many rows as columns and every
  \<open>tr_duration\<close> and \<open>temporal_resolution\<close> whose stride is not 0: when the test
  \<open>hrf_type == 'double_gamma'\<close> is plainly false (another string, \<open>None\<close>, a number, a
  tuple, a NumPy array of numbers with exactly one element), \<open>convolve_hrf\<close> raises
  \<open>UnboundLocalError\<close> before any convolution, for \<open>hrf\<close> when the stimulus has a
  column and for \<open>signal_function\<close> when it has none; when \<open>hrf_type\<close> is a NumPy array
  of numbers with no element or more than one, the test raises \<open>ValueError\<close> instead.
\<close>

theorem convolve_hrf_unbound_hrf:
  assumes "ht \<noteq> HrfStr ''double_gamma''" and "\<And>l. ht \<noteq> HrfList l"
    and "shape1 stimfunction \<le> shape0 stimfunction"
    and "py_int (tres * tr_duration) \<noteq> 0"
  shows "convolve_hrf stimfunction tr_duration ht scale_function tres
           = (case eq_double_gamma ht of
                Inl e \<Rightarrow> Inl e
              | Inr b \<Rightarrow> Inl (UnboundLocalError
                            (if shape1 stimfunction = 0 then ''signal_function'' else ''hrf'')))"
proof -
  from assms(3) have shape: "\<not> shape0 stimfunction < shape1 stimfunction" by simp
  note sel = select_hrf_not_bound[OF assms(1,2), of tres]
  show ?thesis
  proof (cases "eq_double_gamma ht")
    case (Inl e)
    with shape assms(4) sel show ?thesis
      by (simp add: convolve_hrf_def py_truediv_def Let_def)
  next
    case (Inr b)
    with sel have none: "select_hrf ht tres = Inr None" by simp
    show ?thesis
    proof (cases "shape1 stimfunction = 0")
      case True
      with shape assms(4) none Inr show ?thesis
        by (simp add: convolve_hrf_def py_truediv_def Let_def)
    next
      case False
      then have upt: "[0..<shape1 stimfunction] = 0 # [1..<shape1 stimfunction]"
        by (simp add: upt_conv_Cons)
      have "signal_column stimfunction None st d scale_function 0 = Inl (UnboundLocalError ''hrf'')"
        for st d by (simp add: signal_column_def downsample_def)
      with shape assms(4) False none Inr show ?thesis
        by (simp add: convolve_hrf_def py_truediv_def Let_def upt)
    qed
  qed
qed

theorem convolve_hrf_unbound_hrf_witness:
  "HrfStr ''gamma'' \<noteq> HrfStr ''double_gamma''
   \<and> shape1 \<lparr>shape0 = 2, shape1 = 1, cells = [[1], [0::real]]\<rparr>
        \<le> shape0 \<lparr>shape0 = 2, shape1 = 1, cells = [[1], [0::real]]\<rparr>
   \<and> py_int (1 * 1) \<noteq> 0
   \<and> convolve_hrf \<lparr>shape0 = 2, shape1 = 1, cells = [[1], [0]]\<rparr> 1 (HrfStr ''gamma'') True 1
        = Inl (UnboundLocalError ''hrf'')
   \<and> convolve_hrf \<lparr>shape0 = 2, shape1 = 1, cells = [[1], [0]]\<rparr> 1 (HrfArray [3]) True 1
        = Inl (UnboundLocalError ''hrf'')
   \<and> convolve_hrf \<lparr>shape0 = 2, shape1 = 1, cells = [[1], [0]]\<rparr> 1 (HrfArray [3, 4]) True 1
        = Inl (ValueError ''The truth value of an array with more than one element is ambiguous'')"
proof -
  let ?s = "\<lparr>shape0 = 2, shape1 = 1, cells = [[1], [0::real]]\<rparr>"
  have a: "HrfStr ''gamma'' \<noteq> HrfStr ''double_gamma''" by simp
  have c: "shape1 ?s \<le> shape0 ?s" by simp
  have d: "py_int (1 * 1) \<noteq> 0" by (simp add: py_int_def)
  have "convolve_hrf ?s 1 (HrfStr ''gamma'') True 1 = Inl (UnboundLocalError ''hrf'')"
    using convolve_hrf_unbound_hrf[OF a _ c d, of True] by simp
  moreover have "convolve_hrf ?s 1 (HrfArray [3]) True 1 = Inl (UnboundLocalError ''hrf'')"
    using convolve_hrf_unbound_hrf[OF _ _ c d, of "HrfArray [3]" True] by simp
  moreover have "convolve_hrf ?s 1 (HrfArray [3, 4]) True 1
        = Inl (ValueError ''The truth value of an array with more than one element is ambiguous'')"
    using convolve_hrf_unbound_hrf[OF _ _ c d, of "HrfArray [3, 4]" True] by simp
  ultimately show ?thesis using a c d by blast
qed

subsection \<open>The scaled and the unscaled call\<close>

lemma np_max_Inr:
  assumes "np_max xs = Inr mx"
  shows "mx \<in> set xs" and "\<And>x. x \<in> set xs \<Longrightarrow> x \<le> mx"
proof -
  from assms obtain y ys where xs: "xs = y # ys" and mx: "mx = fold max ys y"
    by (auto simp: np_max_def split: list.splits)
  have "Max (set xs) = mx" unfolding xs mx by (rule Max.set_eq_fold)
  moreover have "finite (set xs)" "set xs \<noteq> {}" using xs by simp_all
  ultimately show "mx \<in> set xs" and "\<And>x. x \<in> set xs \<Longrightarrow> x \<le> mx"
    using Max_in[of "set xs"] Max_ge[of "set xs"] by auto
qed

lemma np_max_nonempty: "xs \<noteq> [] \<Longrightarrow> \<exists>mx. np_max xs = Inr mx"
  by (cases xs) (simp_all add: np_max_def)

text \<open>The scaled and the unscaled call read the same downsampled vectors.\<close>

lemma signal_column_unscaled:
  "signal_column s hrf st d False c = Inr y \<longleftrightarrow>
     (\<exists>vox. downsample s hrf st d c = Inr vox \<and> y = map Finite vox)"
  by (auto simp: signal_column_def scale_signal_def split: sum.splits)

lemma signal_column_scaled:
  "signal_column s hrf st d True c = Inr y \<longleftrightarrow>
     (\<exists>vox mx. downsample s hrf st d c = Inr vox \<and> np_max vox = Inr mx
        \<and> y = map (\<lambda>x. np_divide x mx) vox)"
  by (auto simp: signal_column_def scale_signal_def split: sum.splits)

lemma convolve_hrf_scaled_of_unscaled:
  assumes raw: "convolve_hrf s trd ht False tres = Inr raw" and rows: "0 < shape0 raw"
  shows "\<exists>out hrf. convolve_hrf s trd ht True tres = Inr out \<and> wf_ndarray out
           \<and> shape0 out = shape0 raw \<and> shape1 out = shape1 raw \<and> shape1 raw = shape1 s
           \<and> select_hrf ht tres = Inr hrf
           \<and> (\<forall>c<shape1 s. \<exists>vox mx.
                 downsample s hrf (stride_of tres trd) (duration_of s (stride_of tres trd)) c = Inr vox
                 \<and> column raw c = map Finite vox \<and> np_max vox = Inr mx
                 \<and> column out c = map (\<lambda>x. np_divide x mx) vox)"
  using raw
proof (rule convolve_hrf_Inr)
  fix hrf v
  let ?st = "stride_of tres trd"
  let ?d = "duration_of s ?st"
  assume sh: "shape1 s \<le> shape0 s" and cols: "0 < shape1 s" and st: "?st \<noteq> 0"
    and sel: "select_hrf ht tres = Inr hrf"
    and v: "\<And>c. signal_column s hrf ?st ?d False c = Inr (v c)"
    and len: "\<And>c. length (v c) = length (v 0)"
    and raw_eq: "raw = of_columns (length (v 0)) (shape1 s) v"
  let ?n = "length (v 0)"
  from rows raw_eq have n: "0 < ?n" by simp
  have "\<exists>vox. downsample s hrf ?st ?d c = Inr vox \<and> v c = map Finite vox" for c
    using v[of c] by (simp add: signal_column_unscaled)
  then obtain vox where vox: "\<And>c. downsample s hrf ?st ?d c = Inr (vox c)"
    and vc: "\<And>c. v c = map Finite (vox c)"
    by metis
  have lvox: "length (vox c) = ?n" for c using len[of c] by (simp add: vc)
  have "\<exists>mx. np_max (vox c) = Inr mx" for c
    using lvox[of c] n by (intro np_max_nonempty) auto
  then obtain mx where mx: "\<And>c. np_max (vox c) = Inr (mx c)" by metis
  let ?w = "\<lambda>c. map (\<lambda>x. np_divide x (mx c)) (vox c)"
  have body: "signal_column s hrf ?st ?d True c = Inr (?w c) \<and> length (?w c) = ?n" for c
    using vox[of c] mx[of c] lvox[of c] by (simp add: signal_column_scaled)
  have res: "convolve_hrf s trd ht True tres = Inr (of_columns ?n (shape1 s) ?w)"
    using sh cols st sel body by (rule convolve_hrf_returns)
  have "downsample s hrf ?st ?d c = Inr (vox c)
          \<and> column raw c = map Finite (vox c) \<and> np_max (vox c) = Inr (mx c)
          \<and> column (of_columns ?n (shape1 s) ?w) c = map (\<lambda>x. np_divide x (mx c)) (vox c)"
    if "c < shape1 s" for c
    using that vox[of c] mx[of c] lvox[of c] len[of c] vc[of c]
    by (simp add: raw_eq of_columns_column)
  with res raw_eq sel of_columns_wf[of ?n "shape1 s" ?w] show ?thesis
    by (intro exI conjI) auto
qed

lemma convolve_hrf_unscaled_of_scaled:
  assumes "convolve_hrf s trd ht True tres = Inr out"
  shows "\<exists>raw. convolve_hrf s trd ht False tres = Inr raw \<and> 0 < shape0 raw"
  using assms
proof (rule convolve_hrf_Inr)
  fix hrf v
  let ?st = "stride_of tres trd"
  let ?d = "duration_of s ?st"
  assume sh: "shape1 s \<le> shape0 s" and cols: "0 < shape1 s" and st: "?st \<noteq> 0"
    and sel: "select_hrf ht tres = Inr hrf"
    and v: "\<And>c. signal_column s hrf ?st ?d True c = Inr (v c)"
    and len: "\<And>c. length (v c) = length (v 0)"
  have "\<exists>vox mx. downsample s hrf ?st ?d c = Inr vox \<and> np_max vox = Inr mx
          \<and> v c = map (\<lambda>x. np_divide x mx) vox" for c
    using v[of c] by (simp add: signal_column_scaled)
  then obtain vox mx where vox: "\<And>c. downsample s hrf ?st ?d c = Inr (vox c)"
    and mx: "\<And>c. np_max (vox c) = Inr (mx c)"
    and vc: "\<And>c. v c = map (\<lambda>x. np_divide x (mx c)) (vox c)"
    by metis
  have lvox: "length (vox c) = length (vox 0)" for c using len[of c] by (simp add: vc)
  from mx[of 0] have "vox 0 \<noteq> []" by (auto simp: np_max_def)
  then have n: "0 < length (vox 0)" by simp
  have body: "signal_column s hrf ?st ?d False c = Inr (map Finite (vox c))
                \<and> length (map Finite (vox c)) = length (vox 0)" for c
    using vox[of c] lvox[of c] by (simp add: signal_column_unscaled)
  have "convolve_hrf s trd ht False tres
          = Inr (of_columns (length (vox 0)) (shape1 s) (\<lambda>c. map Finite (vox c)))"
    using sh cols st sel body by (rule convolve_hrf_returns)
  with n show ?thesis by simp
qed

subsection \<open>Linearity of the unscaled output\<close>

lemma convolve_at_scale: "convolve_at (map ((*) a) col) h n = a * convolve_at col h n"
proof -
  have "map (\<lambda>m. if m \<le> n \<and> n - m < length h then map ((*) a) col ! m * h ! (n - m) else 0)
          [0..<length col]
        = map (\<lambda>m. a * (if m \<le> n \<and> n - m < length h then col ! m * h ! (n - m) else 0))
          [0..<length col]"
    by (rule map_cong) auto
  then show ?thesis
    unfolding convolve_at_def length_map by (simp only: sum_list_const_mult)
qed

lemma np_convolve_scale:
  "np_convolve (map ((*) a) col) h = map_sum id (map ((*) a)) (np_convolve col h)"
  by (simp add: np_convolve_def convolve_at_scale)

lemma downsample_scale:
  assumes "column s' c = map ((*) a) (column s c)"
  shows "downsample s' hrf st d c = map_sum id (map ((*) a)) (downsample s hrf st d c)"
proof (cases hrf)
  case None
  then show ?thesis by (simp add: downsample_def)
next
  case (Some h)
  show ?thesis
  proof (cases "np_convolve (column s c) h")
    case (Inl e)
    then show ?thesis using Some assms by (simp add: downsample_def np_convolve_scale)
  next
    case (Inr conv)
    then show ?thesis using Some assms
      by (simp add: downsample_def np_convolve_scale Let_def slice_stop_map slice_start_step_map)
  qed
qed

lemma column_scale_column:
  assumes "wf_ndarray s" and "c0 < shape1 s"
  shows "column (scale_column a c0 s) c = (if c = c0 then map ((*) a) (column s c) else column s c)"
proof (cases "c = c0")
  case True
  have "r[c0 := a * r ! c0] ! c0 = a * r ! c0" if "r \<in> set (cells s)" for r
  proof -
    from assms that have "c0 < length r" by (auto simp: wf_ndarray_def list_all_iff)
    then show ?thesis by simp
  qed
  with True show ?thesis by (auto simp: column_def scale_column_def)
next
  case False
  then show ?thesis by (auto simp: column_def scale_column_def)
qed

text \<open>
  Claim C7. With \<open>scale_function = false\<close>, whenever the call returns a matrix, the call
  on the stimulus with column \<open>c0\<close> multiplied by a number \<open>a\<close> returns a matrix of the
  same shape whose column \<open>c0\<close> is the old one multiplied by \<open>a\<close> and whose other
  columns are unchanged.
\<close>

theorem convolve_hrf_linear:
  assumes "wf_ndarray stimfunction" and "c0 < shape1 stimfunction"
    and "convolve_hrf stimfunction tr_duration ht False tres = Inr out"
  shows "\<exists>out'. convolve_hrf (scale_column a c0 stimfunction) tr_duration ht False tres = Inr out'
           \<and> shape0 out' = shape0 out \<and> shape1 out' = shape1 out
           \<and> column out' c0 = map (np_multiply a) (column out c0)
           \<and> (\<forall>c<shape1 out. c \<noteq> c0 \<longrightarrow> column out' c = column out c)"
  using assms(3)
proof (rule convolve_hrf_Inr)
  fix hrf v
  let ?s = stimfunction
  let ?s' = "scale_column a c0 ?s"
  let ?st = "stride_of tres tr_duration"
  let ?d = "duration_of ?s ?st"
  assume sh: "shape1 ?s \<le> shape0 ?s" and cols: "0 < shape1 ?s" and st: "?st \<noteq> 0"
    and sel: "select_hrf ht tres = Inr hrf"
    and v: "\<And>c. signal_column ?s hrf ?st ?d False c = Inr (v c)"
    and len: "\<And>c. length (v c) = length (v 0)"
    and out: "out = of_columns (length (v 0)) (shape1 ?s) v"
  let ?n = "length (v 0)"
  let ?v' = "\<lambda>c. if c = c0 then map (np_multiply a) (v c) else v c"
  have shape': "shape0 ?s' = shape0 ?s" "shape1 ?s' = shape1 ?s"
    by (simp_all add: scale_column_def)
  then have d': "duration_of ?s' ?st = ?d" by (simp add: duration_of_def)
  have body: "signal_column ?s' hrf ?st (duration_of ?s' ?st) False c = Inr (?v' c)
                \<and> length (?v' c) = ?n" for c
  proof (cases "c = c0")
    case True
    from v[of c0] obtain vox where vox: "downsample ?s hrf ?st ?d c0 = Inr vox"
      and vc: "v c0 = map Finite vox"
      by (auto simp: signal_column_unscaled)
    have "column ?s' c0 = map ((*) a) (column ?s c0)"
      using column_scale_column[OF assms(1,2), of a c0] by simp
    from downsample_scale[OF this, of hrf ?st ?d] vox
    have "downsample ?s' hrf ?st ?d c0 = Inr (map ((*) a) vox)" by simp
    then have "signal_column ?s' hrf ?st ?d False c0 = Inr (map Finite (map ((*) a) vox))"
      by (simp add: signal_column_unscaled)
    moreover have "map Finite (map ((*) a) vox) = map (np_multiply a) (v c0)"
      by (simp add: vc)
    ultimately show ?thesis using True len[of c0] by (simp add: d')
  next
    case False
    have same: "column ?s' c = column ?s c"
      using column_scale_column[OF assms(1,2), of a c] False by simp
    have "signal_column ?s' hrf ?st ?d False c = signal_column ?s hrf ?st ?d False c"
      unfolding signal_column_def downsample_def same ..
    with False v[of c] len[of c] show ?thesis by (simp add: d')
  qed
  have res: "convolve_hrf ?s' tr_duration ht False tres = Inr (of_columns ?n (shape1 ?s') ?v')"
    using sh cols st sel body unfolding shape'[symmetric] by (rule convolve_hrf_returns)
  have c0col: "column (of_columns ?n (shape1 ?s) ?v') c0 = map (np_multiply a) (column out c0)"
    using assms(2) len[of c0] by (simp add: out of_columns_column)
  have others: "column (of_columns ?n (shape1 ?s) ?v') c = column out c"
    if "c < shape1 ?s" and "c \<noteq> c0" for c
    using that len[of c] by (simp add: out of_columns_column)
  show ?thesis
    using res c0col others by (intro exI[of _ "of_columns ?n (shape1 ?s) ?v'"]) (simp add: shape' out)
qed

theorem convolve_hrf_linear_witness:
  "wf_ndarray \<lparr>shape0 = 2, shape1 = 2, cells = [[1, 1], [0, 2::real]]\<rparr>
   \<and> convolve_hrf \<lparr>shape0 = 2, shape1 = 2, cells = [[1, 1], [0, 2]]\<rparr> 1 (HrfList [1, 1]) False 1
       = Inr \<lparr>shape0 = 2, shape1 = 2, cells = [[Finite 1, Finite 1], [Finite 1, Finite 3]]\<rparr>
   \<and> convolve_hrf (scale_column 3 1 \<lparr>shape0 = 2, shape1 = 2, cells = [[1, 1], [0, 2]]\<rparr>) 1
         (HrfList [1, 1]) False 1
       = Inr \<lparr>shape0 = 2, shape1 = 2, cells = [[Finite 1, Finite 3], [Finite 1, Finite 9]]\<rparr>
   \<and> column \<lparr>shape0 = 2, shape1 = 2, cells = [[Finite 1, Finite 3], [Finite 1, Finite 9]]\<rparr> 1
       = map (np_multiply 3)
           (column \<lparr>shape0 = 2, shape1 = 2, cells = [[Finite 1, Finite 1], [Finite 1, Finite 3]]\<rparr> 1)"
proof -
  let ?s = "\<lparr>shape0 = 2, shape1 = 2, cells = [[1, 1], [0, 2::real]]\<rparr>"
  let ?out = "\<lparr>shape0 = 2, shape1 = 2, cells = [[Finite 1, Finite 1], [Finite 1, Finite 3]]\<rparr>"
  let ?out' = "\<lparr>shape0 = 2, shape1 = 2, cells = [[Finite 1, Finite 3], [Finite 1, Finite 9]]\<rparr>"
  have wf: "wf_ndarray ?s" by (simp add: wf_ndarray_def)
  have c: "1 < shape1 ?s" by simp
  have a: "convolve_hrf ?s 1 (HrfList [1, 1]) False 1 = Inr ?out" by (simp add: conv_eval)
  have b: "convolve_hrf (scale_column 3 1 ?s) 1 (HrfList [1, 1]) False 1 = Inr ?out'"
    by (simp add: conv_eval scale_column_def)
  from convolve_hrf_linear[OF wf c a, of 3] b
  have "column ?out' 1 = map (np_multiply 3) (column ?out 1)" by simp
  with wf a b show ?thesis by blast
qed

subsection \<open>Scaling by the maximum\<close>

text \<open>
  Claim C4, as it is stated, at the column \<open>[1, -5]\<close> with the HRF \<open>[1]\<close> and one sample
  per TR: the downsampled vector is \<open>[1, -5]\<close>, its maximum is 1, and the scaled output
  column is \<open>[1, -5]\<close> again, with maximum absolute value 5.
\<close>

theorem convolve_hrf_scaling_not_absolute:
  "convolve_hrf \<lparr>shape0 = 2, shape1 = 1, cells = [[1], [- 5]]\<rparr> 1 (HrfList [1]) False 1
     = Inr \<lparr>shape0 = 2, shape1 = 1, cells = [[Finite 1], [Finite (- 5)]]\<rparr>
   \<and> convolve_hrf \<lparr>shape0 = 2, shape1 = 1, cells = [[1], [- 5]]\<rparr> 1 (HrfList [1]) True 1
     = Inr \<lparr>shape0 = 2, shape1 = 1, cells = [[Finite 1], [Finite (- 5)]]\<rparr>
   \<and> max \<bar>1\<bar> \<bar>- 5\<bar> = (5::real)"
  by (simp add: conv_eval)

text \<open>
  Claim C4, amended. Whenever the call with \<open>scale_function = true\<close> returns, every
  column whose downsampled vector before scaling (the column of the unscaled output) has a
  positive entry has maximum 1 in the output: 1 occurs in it and every entry is a number
  that is at most 1. Nothing bounds the entries from below.
\<close>

theorem convolve_hrf_scaled_maximum:
  assumes "convolve_hrf stimfunction tr_duration ht False tres = Inr raw"
    and "convolve_hrf stimfunction tr_duration ht True tres = Inr out"
    and "c < shape1 stimfunction"
    and "Finite x \<in> set (column raw c)" and "0 < x"
  shows "Finite 1 \<in> set (column out c)
       \<and> (\<forall>y\<in>set (column out c). \<exists>z. y = Finite z \<and> z \<le> 1)"
proof -
  from convolve_hrf_unscaled_of_scaled[OF assms(2)] assms(1) have rows: "0 < shape0 raw" by simp
  from convolve_hrf_scaled_of_unscaled[OF assms(1) rows] assms(2,3)
  obtain vox mx where raw: "column raw c = map Finite vox" and mx: "np_max vox = Inr mx"
    and out: "column out c = map (\<lambda>x. np_divide x mx) vox"
    by fastforce
  from assms(4) raw have "x \<in> set vox" by auto
  with np_max_Inr(2)[OF mx] assms(5) have pos: "0 < mx" by fastforce
  from np_max_Inr(1)[OF mx] have "np_divide mx mx \<in> set (column out c)" unfolding out by simp
  with pos have one: "Finite 1 \<in> set (column out c)" by (simp add: np_divide_def)
  have "\<exists>z. y = Finite z \<and> z \<le> 1" if "y \<in> set (column out c)" for y
  proof -
    from that obtain x' where x': "x' \<in> set vox" and y: "y = np_divide x' mx"
      unfolding out by auto
    from np_max_Inr(2)[OF mx x'] pos have "x' / mx \<le> 1" by simp
    with y pos show ?thesis by (simp add: np_divide_def)
  qed
  with one show ?thesis by blast
qed

theorem convolve_hrf_scaled_maximum_witness:
  "convolve_hrf \<lparr>shape0 = 2, shape1 = 1, cells = [[2], [- 5]]\<rparr> 1 (HrfList [1]) False 1
     = Inr \<lparr>shape0 = 2, shape1 = 1, cells = [[Finite 2], [Finite (- 5)]]\<rparr>
   \<and> convolve_hrf \<lparr>shape0 = 2, shape1 = 1, cells = [[2], [- 5]]\<rparr> 1 (HrfList [1]) True 1
     = Inr \<lparr>shape0 = 2, shape1 = 1, cells = [[Finite 1], [Finite (- 5 / 2)]]\<rparr>
   \<and> Finite 2 \<in> set (column \<lparr>shape0 = 2, shape1 = 1, cells = [[Finite 2], [Finite (- 5)]]\<rparr> 0)
   \<and> Finite 1 \<in> set (column \<lparr>shape0 = 2, shape1 = 1, cells = [[Finite 1], [Finite (- 5 / 2)]]\<rparr> 0)
   \<and> list_all (\<lambda>y. \<exists>z. y = Finite z \<and> z \<le> 1)
         (column \<lparr>shape0 = 2, shape1 = 1, cells = [[Finite 1], [Finite (- 5 / 2)]]\<rparr> 0)"
proof -
  let ?s = "\<lparr>shape0 = 2, shape1 = 1, cells = [[2], [- 5::real]]\<rparr>"
  let ?raw = "\<lparr>shape0 = 2, shape1 = 1, cells = [[Finite 2], [Finite (- 5)]]\<rparr>"
  let ?out = "\<lparr>shape0 = 2, shape1 = 1, cells = [[Finite 1], [Finite (- 5 / 2)]]\<rparr>"
  have a: "convolve_hrf ?s 1 (HrfList [1]) False 1 = Inr ?raw" by (simp add: conv_eval)
  have b: "convolve_hrf ?s 1 (HrfList [1]) True 1 = Inr ?out" by (simp add: conv_eval)
  have c: "0 < shape1 ?s" by simp
  have d: "Finite 2 \<in> set (column ?raw 0)" by (simp add: column_def)
  have e: "0 < (2::real)" by simp
  from convolve_hrf_scaled_maximum[OF a b c d e]
  have "Finite 1 \<in> set (column ?out 0)"
    and "list_all (\<lambda>y. \<exists>z. y = Finite z \<and> z \<le> 1) (column ?out 0)"
    unfolding list_all_iff by blast+
  with a b d show ?thesis by blast
qed

subsection \<open>An all-zero column\<close>

lemma convolve_at_zero:
  assumes "\<forall>x\<in>set col. x = 0"
  shows "convolve_at col h n = 0"
proof -
  have "map (\<lambda>m. if m \<le> n \<and> n - m < length h then col ! m * h ! (n - m) else 0) [0..<length col]
        = map (\<lambda>m. 0) [0..<length col]"
    using assms by (intro map_cong) auto
  then have "convolve_at col h n = sum_list (map (\<lambda>m. 0) [0..<length col])"
    unfolding convolve_at_def by (rule arg_cong)
  also have "\<dots> = 0" by simp
  finally show ?thesis .
qed

lemma downsample_zero:
  assumes "\<forall>x\<in>set (column s c). x = 0" and "downsample s hrf st d c = Inr vox"
  shows "\<forall>x\<in>set vox. x = 0"
proof -
  from assms(2) obtain h conv where conv: "np_convolve (column s c) h = Inr conv"
    and vox: "slice_start_step (slice_stop conv (d * st)) (py_int (real_of_int st / 2)) st = Inr vox"
    by (auto simp: downsample_def Let_def split: option.splits sum.splits)
  from conv have "\<forall>x\<in>set conv. x = 0"
    by (auto simp: np_convolve_def convolve_at_zero[OF assms(1)] split: if_splits)
  with slice_stop_subset[of conv "d * st"] slice_start_step_subset[OF vox] show ?thesis
    by blast
qed

text \<open>
  Claim C8, as it is stated, at a stimulus with two rows whose first column is all-zero,
  with a stride of 3: no TR fits, and the call with \<open>scale_function = true\<close> raises the
  \<open>ValueError\<close> of \<open>np.max\<close>.
\<close>

theorem convolve_hrf_zero_column_raises:
  "column \<lparr>shape0 = 2, shape1 = 2, cells = [[0, 1], [0, 2::real]]\<rparr> 0 = [0, 0]
   \<and> convolve_hrf \<lparr>shape0 = 2, shape1 = 2, cells = [[0, 1], [0, 2]]\<rparr> 3 (HrfList [1]) True 1
       = Inl (ValueError ''zero-size array to reduction operation maximum'')"
  by (simp add: conv_eval)

text \<open>
  Claim C8, amended. For every stimulus with an all-zero column \<open>c\<close>, whenever the call
  with \<open>scale_function = false\<close> returns a matrix with at least one row, the call with
  \<open>scale_function = true\<close> returns a matrix of the same shape whose column \<open>c\<close> consists
  of not-a-number values only, and every column is its downsampled vector divided by
  the maximum of that vector.
\<close>

theorem convolve_hrf_zero_column:
  assumes "c < shape1 stimfunction"
    and "\<forall>x\<in>set (column stimfunction c). x = 0"
    and "convolve_hrf stimfunction tr_duration ht False tres = Inr raw"
    and "0 < shape0 raw"
  shows "\<exists>out. convolve_hrf stimfunction tr_duration ht True tres = Inr out
           \<and> shape0 out = shape0 raw \<and> shape1 out = shape1 raw
           \<and> column out c = replicate (shape0 out) NaN
           \<and> (\<forall>c'<shape1 stimfunction. \<exists>vox mx.
                 column raw c' = map Finite vox \<and> np_max vox = Inr mx
                 \<and> column out c' = map (\<lambda>x. np_divide x mx) vox)"
proof -
  let ?s = stimfunction
  let ?st = "stride_of tres tr_duration"
  from convolve_hrf_scaled_of_unscaled[OF assms(3,4)]
  obtain out hrf where res: "convolve_hrf ?s tr_duration ht True tres = Inr out"
    and wf: "wf_ndarray out"
    and sh: "shape0 out = shape0 raw" "shape1 out = shape1 raw"
    and cols: "\<forall>c<shape1 ?s. \<exists>vox mx.
                 downsample ?s hrf ?st (duration_of ?s ?st) c = Inr vox
                 \<and> column raw c = map Finite vox \<and> np_max vox = Inr mx
                 \<and> column out c = map (\<lambda>x. np_divide x mx) vox"
    by blast
  from cols assms(1) obtain vox mx
    where vox: "downsample ?s hrf ?st (duration_of ?s ?st) c = Inr vox"
      and mx: "np_max vox = Inr mx"
      and outc: "column out c = map (\<lambda>x. np_divide x mx) vox"
    by blast
  from downsample_zero[OF assms(2) vox] have zero: "\<forall>x\<in>set vox. x = 0" .
  with np_max_Inr(1)[OF mx] have "mx = 0" by blast
  with zero have "map (\<lambda>x. np_divide x mx) vox = map (\<lambda>x. NaN) vox"
    by (intro map_cong) (auto simp: np_divide_def)
  also have "\<dots> = replicate (length vox) NaN" by (simp add: map_replicate_const)
  finally have "column out c = replicate (length vox) NaN" using outc by simp
  moreover have "length vox = shape0 out"
  proof -
    have "length vox = length (column out c)" by (simp add: outc)
    also have "\<dots> = shape0 out" using wf by (simp add: wf_ndarray_def)
    finally show ?thesis .
  qed
  ultimately have nan: "column out c = replicate (shape0 out) NaN" by simp
  from cols have "\<forall>c'<shape1 ?s. \<exists>vox mx.
                 column raw c' = map Finite vox \<and> np_max vox = Inr mx
                 \<and> column out c' = map (\<lambda>x. np_divide x mx) vox"
    by blast
  with res sh nan show ?thesis by blast
qed

theorem convolve_hrf_zero_column_witness:
  "column \<lparr>shape0 = 2, shape1 = 2, cells = [[0, 1], [0, 2::real]]\<rparr> 0 = [0, 0]
   \<and> convolve_hrf \<lparr>shape0 = 2, shape1 = 2, cells = [[0, 1], [0, 2]]\<rparr> 1 (HrfList [1]) False 1
       = Inr \<lparr>shape0 = 2, shape1 = 2, cells = [[Finite 0, Finite 1], [Finite 0, Finite 2]]\<rparr>
   \<and> convolve_hrf \<lparr>shape0 = 2, shape1 = 2, cells = [[0, 1], [0, 2]]\<rparr> 1 (HrfList [1]) True 1
       = Inr \<lparr>shape0 = 2, shape1 = 2, cells = [[NaN, Finite (1 / 2)], [NaN, Finite 1]]\<rparr>
   \<and> column \<lparr>shape0 = 2, shape1 = 2, cells = [[NaN, Finite (1 / 2)], [NaN, Finite 1]]\<rparr> 0
       = replicate 2 NaN"
proof -
  let ?s = "\<lparr>shape0 = 2, shape1 = 2, cells = [[0, 1], [0, 2::real]]\<rparr>"
  let ?raw = "\<lparr>shape0 = 2, shape1 = 2, cells = [[Finite 0, Finite 1], [Finite 0, Finite 2]]\<rparr>"
  let ?out = "\<lparr>shape0 = 2, shape1 = 2, cells = [[NaN, Finite (1 / 2)], [NaN, Finite 1]]\<rparr>"
  have c: "0 < shape1 ?s" by simp
  have z0: "column ?s 0 = [0, 0]" by (simp add: column_def)
  then have z: "\<forall>x\<in>set (column ?s 0). x = 0" by simp
  have a: "convolve_hrf ?s 1 (HrfList [1]) False 1 = Inr ?raw" by (simp add: conv_eval)
  have r: "0 < shape0 ?raw" by simp
  have b: "convolve_hrf ?s 1 (HrfList [1]) True 1 = Inr ?out" by (simp add: conv_eval)
  from convolve_hrf_zero_column[OF c z a r] b
  have "column ?out 0 = replicate (shape0 ?out) NaN" by simp
  then have "column ?out 0 = replicate 2 NaN" by simp
  with z0 a b show ?thesis by blast
qed

subsection \<open>The choice of the HRF\<close>

lemma select_hrf_builtin:
  "double_gamma_hrf (default_params tres) = Inr hrf \<Longrightarrow>
     select_hrf (HrfStr ''double_gamma'') tres = select_hrf (HrfList hrf) tres"
  by (simp add: select_hrf_def)

text \<open>
  Claim C6. With the default shape parameters the synthesizer returns for every
  \<open>temporal_resolution\<close>, and \<open>convolve_hrf\<close> called with that sequence as \<open>hrf_type\<close>
  gives the same result (the same matrix, or the same exception) as with
  \<open>hrf_type = 'double_gamma'\<close>, for every stimulus, TR duration and scaling flag.
\<close>

theorem convolve_hrf_explicit_builtin:
  "\<exists>hrf. double_gamma_hrf (default_params tres) = Inr hrf \<and>
     convolve_hrf stimfunction tr_duration (HrfList hrf) scale_function tres =
     convolve_hrf stimfunction tr_duration (HrfStr ''double_gamma'') scale_function tres"
proof -
  from default_hrf_returns obtain hrf where h: "double_gamma_hrf (default_params tres) = Inr hrf"
    by blast
  have "convolve_hrf stimfunction tr_duration (HrfList hrf) scale_function tres =
     convolve_hrf stimfunction tr_duration (HrfStr ''double_gamma'') scale_function tres"
    unfolding convolve_hrf_def select_hrf_builtin[OF h] ..
  with h show ?thesis by blast
qed

subsection \<open>The shape check\<close>

text \<open>
  Claim C5 at a stimulus with one row and two columns: the call does not warn and go on,
  it raises \<open>NameError\<close>, since \<open>logger\<close> is not defined in the module.
\<close>

theorem convolve_hrf_transposed_raises:
  "convolve_hrf \<lparr>shape0 = 1, shape1 = 2, cells = [[1, 0]]\<rparr> 1 (HrfList [1]) False 1
     = Inl (NameError ''logger'')"
  by (simp add: convolve_hrf_def)

end
